theory Spec2Isabelle
  imports Main
begin

section \<open>Python string primitives used by the diff classifier\<close>

text \<open>
  The classifier of \<^verbatim>\<open>repo_fix_summary_get_line_class_method.py\<close> is built from
  \<^verbatim>\<open>str.startswith\<close>, the substring test \<^verbatim>\<open>in\<close>, \<^verbatim>\<open>str.split(sep)\<close>,
  \<^verbatim>\<open>str.strip()\<close>, list indexing and \<^verbatim>\<open>int(...)\<close>.  A Python string is modelled as a
  \<^typ>\<open>string\<close>; a \<^typ>\<open>char\<close> stands for the code point with the same number
  (code points below 256).  Exceptions are values of \<open>py_error\<close>.
\<close>

datatype py_error =
    IndexError
  | KeyError string
  | ValueError string

text \<open>\<^verbatim>\<open>s.startswith(p)\<close>.\<close>

definition startswith :: "string \<Rightarrow> string \<Rightarrow> bool" where
  "startswith s p = (take (length p) s = p)"

text \<open>\<^verbatim>\<open>sub in s\<close>: \<open>sub\<close> occurs at some position of \<open>s\<close>.\<close>

fun py_in :: "string \<Rightarrow> string \<Rightarrow> bool" where
  "py_in sub [] = (sub = [])"
| "py_in sub (c # cs) = (startswith (c # cs) sub \<or> py_in sub cs)"

text \<open>
  \<^verbatim>\<open>s.split(sep)\<close> for a non-empty separator (every call of the source passes a
  non-empty literal): the occurrences of \<open>sep\<close> are found from the left and do not
  overlap; the result is never empty.  Where \<open>sep\<close> starts at the current position an
  empty piece ends there and the scan continues behind the separator; otherwise the
  current character belongs to the first piece of the rest.
\<close>

fun py_split :: "string \<Rightarrow> string \<Rightarrow> string list" where
  "py_split sep [] = [[]]"
| "py_split sep (c # cs) =
     (if startswith (c # cs) sep then [] # py_split sep (drop (length sep - 1) cs)
      else (case py_split sep cs of
              [] \<Rightarrow> [[c]]
            | p # ps \<Rightarrow> (c # p) # ps))"

text \<open>\<^verbatim>\<open>xs[n]\<close> for \<open>n \<ge> 0\<close> raises \<^verbatim>\<open>IndexError\<close> out of range.\<close>

definition py_index :: "'a list \<Rightarrow> nat \<Rightarrow> py_error + 'a" where
  "py_index xs n = (if n < length xs then Inr (xs ! n) else Inl IndexError)"

text \<open>
  The characters \<^verbatim>\<open>str.strip()\<close> removes (those with \<^verbatim>\<open>isspace()\<close> true, below 256):
  9-13, 28-31, 32, 133 and 160.
\<close>

definition is_space :: "char \<Rightarrow> bool" where
  "is_space c = (c \<in> set [CHR 0x09, CHR 0x0A, CHR 0x0B, CHR 0x0C, CHR 0x0D,
                           CHR 0x1C, CHR 0x1D, CHR 0x1E, CHR 0x1F, CHR 0x20,
                           CHR 0x85, CHR 0xA0])"

definition strip :: "string \<Rightarrow> string" where
  "strip s = rev (dropWhile is_space (rev (dropWhile is_space s)))"

text \<open>
  \<^verbatim>\<open>int(s)\<close> in base 10.  The surrounding white space \<^verbatim>\<open>int\<close> skips is narrower than
  that of \<^verbatim>\<open>strip\<close>: 9-13 and 32, and 133 and 160 (which it first maps to a blank);
  28-31 are rejected.  Then an optional sign and decimal digits, where single
  underscores may stand between digits.  Anything else raises \<^verbatim>\<open>ValueError\<close>, whose
  message quotes the argument.  (The interpreter's limit on the number of digits is
  not modelled.)
\<close>

definition is_int_space :: "char \<Rightarrow> bool" where
  "is_int_space c = (c \<in> set [CHR 0x09, CHR 0x0A, CHR 0x0B, CHR 0x0C, CHR 0x0D,
                               CHR 0x20, CHR 0x85, CHR 0xA0])"

definition is_digit :: "char \<Rightarrow> bool" where
  "is_digit c = (c \<in> set ''0123456789'')"

definition digit_val :: "char \<Rightarrow> int" where
  "digit_val c = int (of_char c) - 48"

fun parse_digits :: "bool \<Rightarrow> int \<Rightarrow> string \<Rightarrow> int option" where
  "parse_digits prev_digit acc [] = (if prev_digit then Some acc else None)"
| "parse_digits prev_digit acc (c # cs) =
     (if is_digit c then parse_digits True (acc * 10 + digit_val c) cs
      else if c = CHR ''_'' \<and> prev_digit then parse_digits False acc cs
      else None)"

definition parse_signed :: "string \<Rightarrow> int option" where
  "parse_signed t =
     (case t of
        [] \<Rightarrow> None
      | c # cs \<Rightarrow>
          if c = CHR ''-'' then map_option uminus (parse_digits False 0 cs)
          else if c = CHR ''+'' then parse_digits False 0 cs
          else parse_digits False 0 t)"

definition py_int :: "string \<Rightarrow> py_error + int" where
  "py_int s =
     (case parse_signed (rev (dropWhile is_int_space (rev (dropWhile is_int_space s)))) of
        None \<Rightarrow> Inl (ValueError s)
      | Some n \<Rightarrow> Inr n)"

section \<open>Data model\<close>

text \<open>
  The per-file dictionary that \<^verbatim>\<open>file_stats\<close> maps a file to.  The factory of the
  \<^verbatim>\<open>defaultdict\<close> (line 46) creates the keys \<^verbatim>\<open>additions\<close>, \<^verbatim>\<open>deletions\<close> and
  \<^verbatim>\<open>changes\<close> only; the keys \<^verbatim>\<open>line_changes\<close> and \<^verbatim>\<open>class_method_changes\<close> are read at
  lines 143, 148, 172 and 177, so each is a field that is \<open>None\<close> while the key is
  absent from the dictionary.
\<close>

datatype change_type = Addition | Deletion

record line_change =
  lc_type :: change_type
  lc_line_number :: int
  lc_content :: string
  lc_class :: "string option"
  lc_method :: "string option"

record class_method_change =
  cm_class :: "string option"
  cm_method :: "string option"
  cm_key :: string
  cm_line :: int
  cm_type :: change_type
  cm_content :: string

record file_stat =
  additions :: int
  deletions :: int
  changes :: int
  line_changes :: "line_change list option"
  class_method_changes :: "class_method_change list option"

text \<open>
  The keys of \<^verbatim>\<open>file_stats\<close> are the values of \<^verbatim>\<open>current_file\<close>: a path, or Python's
  \<^verbatim>\<open>None\<close> while no file header has been seen.
\<close>

type_synonym stats_map = "string option \<rightharpoonup> file_stat"

definition default_stat :: file_stat where
  "default_stat =
     \<lparr>additions = 0, deletions = 0, changes = 0,
      line_changes = None, class_method_changes = None\<rparr>"

text \<open>\<^verbatim>\<open>file_stats[k]\<close> on the \<^verbatim>\<open>defaultdict\<close>: a missing key yields the factory's value.\<close>

definition get_stat :: "stats_map \<Rightarrow> string option \<Rightarrow> file_stat" where
  "get_stat fs k = (case fs k of None \<Rightarrow> default_stat | Some st \<Rightarrow> st)"

text \<open>Lines 55-56 and 132-133; lines 58-59 and 161-162.\<close>

definition count_addition :: "stats_map \<Rightarrow> string option \<Rightarrow> stats_map" where
  "count_addition fs k =
     (let st = get_stat fs k
      in fs(k \<mapsto> st\<lparr>additions := additions st + 1, changes := changes st + 1\<rparr>))"

definition count_deletion :: "stats_map \<Rightarrow> string option \<Rightarrow> stats_map" where
  "count_deletion fs k =
     (let st = get_stat fs k
      in fs(k \<mapsto> st\<lparr>deletions := deletions st + 1, changes := changes st + 1\<rparr>))"

text \<open>
  \<^verbatim>\<open>file_stats[k]["line_changes"].append(ci)\<close>: the lookup of the inner key raises
  \<^verbatim>\<open>KeyError\<close> when the key is absent.
\<close>

definition append_line_change ::
  "stats_map \<Rightarrow> string option \<Rightarrow> line_change \<Rightarrow> py_error + stats_map" where
  "append_line_change fs k ci =
     (let st = get_stat fs k
      in case line_changes st of
           None \<Rightarrow> Inl (KeyError ''line_changes'')
         | Some l \<Rightarrow> Inr (fs(k \<mapsto> st\<lparr>line_changes := Some (l @ [ci])\<rparr>)))"

definition append_class_method_change ::
  "stats_map \<Rightarrow> string option \<Rightarrow> class_method_change \<Rightarrow> py_error + stats_map" where
  "append_class_method_change fs k cmc =
     (let st = get_stat fs k
      in case class_method_changes st of
           None \<Rightarrow> Inl (KeyError ''class_method_changes'')
         | Some l \<Rightarrow> Inr (fs(k \<mapsto> st\<lparr>class_method_changes := Some (l @ [cmc])\<rparr>)))"

record parser_state =
  file_stats :: stats_map
  current_file :: "string option"
  current_class :: "string option"
  current_method :: "string option"
  old_line_num :: "int option"
  new_line_num :: "int option"

section \<open>Line classification\<close>

text \<open>The guards of the \<^verbatim>\<open>if\<close>/\<^verbatim>\<open>elif\<close> chain, lines 93, 100, 131, 160 and 190.\<close>

definition is_file_header :: "string \<Rightarrow> bool" where
  "is_file_header line = startswith line ''diff --git''"

definition is_hunk_header :: "string \<Rightarrow> bool" where
  "is_hunk_header line = startswith line ''@@''"

definition is_addition :: "string \<Rightarrow> bool" where
  "is_addition line = (startswith line ''+'' \<and> \<not> startswith line ''+++'')"

definition is_deletion :: "string \<Rightarrow> bool" where
  "is_deletion line = (startswith line ''-'' \<and> \<not> startswith line ''---'')"

definition is_context :: "string \<Rightarrow> bool" where
  "is_context line =
     (\<not> startswith line ''+'' \<and> \<not> startswith line ''-'' \<and>
      \<not> startswith line ''diff'' \<and> \<not> startswith line ''@@'')"

section \<open>The first pass (lines 46-59)\<close>

text \<open>
  \<^verbatim>\<open>line.split(" b/")[-1]\<close>: the result of \<open>py_split\<close> is never empty
  (lemma \<open>py_split_not_Nil\<close>), so the index \<^verbatim>\<open>-1\<close> is its last element.
\<close>

definition header_path :: "string \<Rightarrow> string" where
  "header_path line = last (py_split '' b/'' line)"

fun count_pass :: "string list \<Rightarrow> stats_map \<Rightarrow> string option \<Rightarrow> stats_map" where
  "count_pass [] fs cf = fs"
| "count_pass (line # rest) fs cf =
     (if is_file_header line then count_pass rest fs (Some (header_path line))
      else if is_addition line then count_pass rest (count_addition fs cf) cf
      else if is_deletion line then count_pass rest (count_deletion fs cf) cf
      else count_pass rest fs cf)"

section \<open>The second pass (lines 81-205)\<close>

text \<open>Lines 94-97.\<close>

definition file_header :: "string \<Rightarrow> parser_state \<Rightarrow> parser_state" where
  "file_header line s =
     s\<lparr>current_file := Some (header_path line),
       current_class := None, current_method := None\<rparr>"

text \<open>
  Lines 101-104: the two range tokens of a hunk header.  \<^verbatim>\<open>line.split("@@")[1]\<close> and
  \<^verbatim>\<open>line_numbers[1]\<close> raise \<^verbatim>\<open>IndexError\<close> out of range (the latter when the header
  has one token only); the index \<^verbatim>\<open>[0]\<close> of a split is its head.
\<close>

definition hunk_ranges :: "string \<Rightarrow> py_error + string \<times> string" where
  "hunk_ranges line =
     (case py_index (py_split ''@@'' line) 1 of
        Inl e \<Rightarrow> Inl e
      | Inr part \<Rightarrow>
          (let line_info = strip part;
               line_numbers = py_split '' '' line_info
           in (case py_index line_numbers 1 of
                 Inl e \<Rightarrow> Inl e
               | Inr new_range \<Rightarrow> Inr (hd line_numbers, new_range))))"

text \<open>\<^verbatim>\<open>old_range.split(",")[0]\<close>: the text of a range token before its first comma.\<close>

definition range_start :: "string \<Rightarrow> string" where
  "range_start range_token = hd (py_split '','' range_token)"

text \<open>
  Lines 101-112: the cursors from the two range tokens (\<^verbatim>\<open>int\<close> raises
  \<^verbatim>\<open>ValueError\<close>), then the reset of the context.
\<close>

definition hunk_parse :: "string \<Rightarrow> parser_state \<Rightarrow> py_error + parser_state" where
  "hunk_parse line s =
     (case hunk_ranges line of
        Inl e \<Rightarrow> Inl e
      | Inr (old_range, new_range) \<Rightarrow>
          (case py_int (range_start old_range) of
             Inl e \<Rightarrow> Inl e
           | Inr a \<Rightarrow>
               (case py_int (range_start new_range) of
                  Inl e \<Rightarrow> Inl e
                | Inr b \<Rightarrow>
                    Inr (s\<lparr>old_line_num := Some (abs a), new_line_num := Some b,
                           current_class := None, current_method := None\<rparr>))))"

text \<open>Lines 115-121: the lines at \<open>i + 1\<close>, ..., \<open>i + 19\<close> that start with neither sign.\<close>

function collect_context :: "string list \<Rightarrow> nat \<Rightarrow> nat \<Rightarrow> string list \<Rightarrow> string list" where
  "collect_context lines i context_index context_lines =
     (if context_index < i + 20 \<and> context_index < length lines then
        (let context_line = lines ! context_index
         in collect_context lines i (Suc context_index)
              (if \<not> startswith context_line ''+'' \<and> \<not> startswith context_line ''-''
               then context_lines @ [context_line] else context_lines))
      else context_lines)"
  by pat_completeness auto
termination
  by (relation "measure (\<lambda>(lines, i, context_index, context_lines). length lines - context_index)")
     auto

text \<open>The tests of lines 126 and 197, and of line 201.\<close>

definition has_class_def :: "string \<Rightarrow> bool" where
  "has_class_def line = (py_in ''class '' line \<and> py_in '':'' line)"

definition has_method_def :: "string \<Rightarrow> bool" where
  "has_method_def line = (py_in ''def '' line \<and> py_in '':'' line)"

text \<open>Lines 127 and 198; line 202.\<close>

definition extract_class :: "string \<Rightarrow> py_error + string" where
  "extract_class line =
     (case py_index (py_split ''class '' line) 1 of
        Inl e \<Rightarrow> Inl e
      | Inr r \<Rightarrow> Inr (strip (hd (py_split '':'' (hd (py_split ''('' r))))))"

definition extract_method :: "string \<Rightarrow> py_error + string" where
  "extract_method line =
     (case py_index (py_split ''def '' line) 1 of
        Inl e \<Rightarrow> Inl e
      | Inr r \<Rightarrow> Inr (strip (hd (py_split ''('' r))))"

text \<open>Lines 124-128: every matching line assigns \<^verbatim>\<open>current_class\<close>; there is no \<^verbatim>\<open>break\<close>.\<close>

fun scan_context :: "string list \<Rightarrow> parser_state \<Rightarrow> py_error + parser_state" where
  "scan_context [] s = Inr s"
| "scan_context (ctx_line # rest) s =
     (if has_class_def ctx_line then
        (case extract_class ctx_line of
           Inl e \<Rightarrow> Inl e
         | Inr c \<Rightarrow> scan_context rest (s\<lparr>current_class := Some c\<rparr>))
      else scan_context rest s)"

definition hunk_lookahead :: "string list \<Rightarrow> nat \<Rightarrow> parser_state \<Rightarrow> py_error + parser_state" where
  "hunk_lookahead lines i s = scan_context (collect_context lines i (i + 1) []) s"

text \<open>Python's truth value of \<^verbatim>\<open>current_class\<close>: \<^verbatim>\<open>None\<close> and the empty string are false.\<close>

definition truthy :: "string option \<Rightarrow> bool" where
  "truthy v = (case v of None \<Rightarrow> False | Some t \<Rightarrow> t \<noteq> [])"

definition class_method_key :: "string option \<Rightarrow> string option \<Rightarrow> string" where
  "class_method_key c m =
     (if truthy c then the c else ''Unknown'') @ ''::'' @ (if truthy m then the m else ''global'')"

text \<open>Lines 135-155 and 164-184, for the cursor value \<open>n\<close>.\<close>

definition record_change ::
  "change_type \<Rightarrow> int \<Rightarrow> string \<Rightarrow> parser_state \<Rightarrow> stats_map \<Rightarrow> py_error + stats_map" where
  "record_change t n line s fs =
     (let change_info = \<lparr>lc_type = t, lc_line_number = n, lc_content = drop 1 line,
                          lc_class = current_class s, lc_method = current_method s\<rparr>
      in case append_line_change fs (current_file s) change_info of
           Inl e \<Rightarrow> Inl e
         | Inr fs1 \<Rightarrow>
             if truthy (current_class s) \<or> truthy (current_method s) then
               append_class_method_change fs1 (current_file s)
                 \<lparr>cm_class = current_class s, cm_method = current_method s,
                  cm_key = class_method_key (current_class s) (current_method s),
                  cm_line = n, cm_type = t, cm_content = drop 1 line\<rparr>
             else Inr fs1)"

text \<open>Lines 132-158.\<close>

definition addition_line :: "string \<Rightarrow> parser_state \<Rightarrow> py_error + parser_state" where
  "addition_line line s =
     (let fs1 = count_addition (file_stats s) (current_file s)
      in case new_line_num s of
           None \<Rightarrow> Inr (s\<lparr>file_stats := fs1\<rparr>)
         | Some n \<Rightarrow>
             (case record_change Addition n line s fs1 of
                Inl e \<Rightarrow> Inl e
              | Inr fs2 \<Rightarrow> Inr (s\<lparr>file_stats := fs2, new_line_num := Some (n + 1)\<rparr>)))"

text \<open>Lines 161-187.\<close>

definition deletion_line :: "string \<Rightarrow> parser_state \<Rightarrow> py_error + parser_state" where
  "deletion_line line s =
     (let fs1 = count_deletion (file_stats s) (current_file s)
      in case old_line_num s of
           None \<Rightarrow> Inr (s\<lparr>file_stats := fs1\<rparr>)
         | Some n \<Rightarrow>
             (case record_change Deletion n line s fs1 of
                Inl e \<Rightarrow> Inl e
              | Inr fs2 \<Rightarrow> Inr (s\<lparr>file_stats := fs2, old_line_num := Some (n + 1)\<rparr>)))"

text \<open>Lines 191-203.\<close>

definition context_line :: "string \<Rightarrow> parser_state \<Rightarrow> py_error + parser_state" where
  "context_line line s =
     (let s1 = s\<lparr>old_line_num := map_option (\<lambda>n. n + 1) (old_line_num s),
                 new_line_num := map_option (\<lambda>n. n + 1) (new_line_num s)\<rparr>
      in case (if has_class_def line then
                 (case extract_class line of
                    Inl e \<Rightarrow> Inl e
                  | Inr c \<Rightarrow> Inr (s1\<lparr>current_class := Some c\<rparr>))
               else Inr s1) of
           Inl e \<Rightarrow> Inl e
         | Inr s2 \<Rightarrow>
             if has_method_def line then
               (case extract_method line of
                  Inl e \<Rightarrow> Inl e
                | Inr m \<Rightarrow> Inr (s2\<lparr>current_method := Some m\<rparr>))
             else Inr s2)"

text \<open>
  The body of the \<^verbatim>\<open>while\<close> loop for the line at index \<open>i\<close> (lines 90-203); a line that
  passes no guard leaves the state as it is.
\<close>

definition step :: "string list \<Rightarrow> nat \<Rightarrow> parser_state \<Rightarrow> py_error + parser_state" where
  "step lines i s =
     (let line = lines ! i
      in if is_file_header line then Inr (file_header line s)
         else if is_hunk_header line then
           (case hunk_parse line s of
              Inl e \<Rightarrow> Inl e
            | Inr s1 \<Rightarrow> hunk_lookahead lines i s1)
         else if is_addition line then addition_line line s
         else if is_deletion line then deletion_line line s
         else if is_context line then context_line line s
         else Inr s)"

text \<open>Lines 88-205: \<^verbatim>\<open>while i < len(lines): ...; i += 1\<close>.\<close>

function run_loop :: "string list \<Rightarrow> nat \<Rightarrow> parser_state \<Rightarrow> py_error + parser_state" where
  "run_loop lines i s =
     (if i < length lines then
        (case step lines i s of
           Inl e \<Rightarrow> Inl e
         | Inr s' \<Rightarrow> run_loop lines (Suc i) s')
      else Inr s)"
  by pat_completeness auto
termination
  by (relation "measure (\<lambda>(lines, i, s). length lines - i)") auto

definition initial_state :: "stats_map \<Rightarrow> parser_state" where
  "initial_state fs =
     \<lparr>file_stats = fs, current_file = None, current_class = None, current_method = None,
      old_line_num = None, new_line_num = None\<rparr>"

text \<open>
  Both passes over the lines of the diff; the second starts from the counters the
  first has left in \<^verbatim>\<open>file_stats\<close>.
\<close>

definition classify :: "string list \<Rightarrow> py_error + stats_map" where
  "classify lines =
     (case run_loop lines 0 (initial_state (count_pass lines Map.empty None)) of
        Inl e \<Rightarrow> Inl e
      | Inr s \<Rightarrow> Inr (file_stats s))"

section \<open>The entry point\<close>

text \<open>
  \<^verbatim>\<open>analyze_commit_changes\<close>, from the output of its three \<^verbatim>\<open>git\<close> commands that the
  result depends on (\<^verbatim>\<open>diff-tree --name-only\<close>, \<^verbatim>\<open>diff --stat\<close>, \<^verbatim>\<open>diff\<close>), each taken to
  have succeeded.  The handler of lines 224-226 catches every exception of the body
  and returns the dictionary \<^verbatim>\<open>{"error": str(e)}\<close>: the function itself never raises.
\<close>

record analysis =
  files :: stats_map
  files_list :: "string list"
  diff_summary :: string
  full_diff :: string

datatype outcome = Error_dict py_error | Result analysis

definition analyze_commit_changes :: "string \<Rightarrow> string \<Rightarrow> string \<Rightarrow> outcome" where
  "analyze_commit_changes files_out stats_out diff_output =
     (let files_changed = py_split [CHR 0x0A] (strip files_out);
          stats_summary = strip stats_out
      in case classify (py_split [CHR 0x0A] diff_output) of
           Inl e \<Rightarrow> Error_dict e
         | Inr fs \<Rightarrow>
             Result \<lparr>files = fs, files_list = files_changed,
                     diff_summary = stats_summary, full_diff = diff_output\<rparr>)"

section \<open>Notions used to state the properties\<close>

text \<open>The number of recorded \<^verbatim>\<open>line_changes\<close> entries of one type in a file's summary.\<close>

definition recorded :: "change_type \<Rightarrow> file_stat \<Rightarrow> nat" where
  "recorded t st =
     (case line_changes st of
        None \<Rightarrow> 0
      | Some l \<Rightarrow> length (filter (\<lambda>c. lc_type c = t) l))"

text \<open>
  The lines the lookahead of a hunk header at index \<open>i\<close> inspects: of the 19 lines
  behind the header, those that start with neither sign.
\<close>

definition lookahead_window :: "string list \<Rightarrow> nat \<Rightarrow> string list" where
  "lookahead_window lines i =
     filter (\<lambda>l. \<not> startswith l ''+'' \<and> \<not> startswith l ''-'') (take 19 (drop (Suc i) lines))"

text \<open>The class name of the last line of a window that has a class definition, if any.\<close>

definition last_class_match :: "string list \<Rightarrow> string option" where
  "last_class_match window =
     (case filter has_class_def window of
        [] \<Rightarrow> None
      | m # ms \<Rightarrow>
          (case extract_class (last (m # ms)) of
             Inl e \<Rightarrow> None
           | Inr c \<Rightarrow> Some c))"

text \<open>
  The invariant of \<^verbatim>\<open>file_stats\<close> on every run that does not raise: the counters add
  up and are not negative, and the two list keys are absent.
\<close>

definition stat_ok :: "file_stat \<Rightarrow> bool" where
  "stat_ok st =
     (additions st + deletions st = changes st \<and> 0 \<le> additions st \<and> 0 \<le> deletions st \<and>
      line_changes st = None \<and> class_method_changes st = None)"

definition stats_ok :: "stats_map \<Rightarrow> bool" where
  "stats_ok fs = (\<forall>k st. fs k = Some st \<longrightarrow> stat_ok st)"

text \<open>The summary of the file \<open>k\<close> in the outcome of a classification.\<close>

definition summary_of :: "py_error + stats_map \<Rightarrow> string option \<Rightarrow> py_error + file_stat option" where
  "summary_of r k = (case r of Inl e \<Rightarrow> Inl e | Inr fs \<Rightarrow> Inr (fs k))"

section \<open>Facts about the string primitives\<close>

declare run_loop.simps [simp del] collect_context.simps [simp del]

lemma py_split_not_Nil: "py_split sep s \<noteq> []"
  by (induction s rule: py_split.induct) (auto split: list.splits)

lemma py_in_iff: "py_in sub s \<longleftrightarrow> (\<exists>u v. s = u @ sub @ v)"
proof (induction s)
  case Nil
  then show ?case by auto
next
  case (Cons c cs)
  have sw: "startswith (c # cs) sub \<longleftrightarrow> (\<exists>v. c # cs = sub @ v)"
    unfolding startswith_def
    by (metis append_eq_conv_conj)
  show ?case
  proof
    assume "py_in sub (c # cs)"
    then consider "startswith (c # cs) sub" | "py_in sub cs" by auto
    then show "\<exists>u v. c # cs = u @ sub @ v"
    proof cases
      case 1
      then obtain v where "c # cs = sub @ v" using sw by blast
      then have "c # cs = [] @ sub @ v" by simp
      then show ?thesis by blast
    next
      case 2
      then obtain u v where "cs = u @ sub @ v" using Cons.IH by blast
      then have "c # cs = (c # u) @ sub @ v" by simp
      then show ?thesis by blast
    qed
  next
    assume "\<exists>u v. c # cs = u @ sub @ v"
    then obtain u v where uv: "c # cs = u @ sub @ v" by blast
    show "py_in sub (c # cs)"
    proof (cases u)
      case Nil
      then have "startswith (c # cs) sub" using uv sw by auto
      then show ?thesis by simp
    next
      case (Cons a u')
      then have "cs = u' @ sub @ v" using uv by simp
      then show ?thesis using Cons.IH by auto
    qed
  qed
qed

lemma py_split_single: "sep \<noteq> [] \<Longrightarrow> py_split sep s = [p] \<Longrightarrow> p = s \<and> \<not> py_in sep s"
proof (induction s arbitrary: p)
  case Nil
  then show ?case by simp
next
  case (Cons c cs)
  then show ?case
    using py_split_not_Nil [of sep]
    by (auto split: if_splits list.splits)
qed

lemma py_split_no_occurrence: "\<not> py_in sep s \<Longrightarrow> py_split sep s = [s]"
  by (induction s) (auto split: list.splits)

lemma py_in_split_length: "sep \<noteq> [] \<Longrightarrow> py_in sep s \<Longrightarrow> 2 \<le> length (py_split sep s)"
proof (induction s)
  case Nil
  then show ?case by simp
next
  case (Cons c cs)
  then show ?case
    using py_split_not_Nil [of sep]
    by (auto split: list.splits simp: Suc_le_eq neq_Nil_conv)
qed

lemma startswith_split: "sep \<noteq> [] \<Longrightarrow> startswith (c # cs) sep \<Longrightarrow> c # cs = sep @ drop (length sep - 1) cs"
  unfolding startswith_def
  by (cases sep) (auto, metis append_take_drop_id)

lemma last_split_no_sep: "sep \<noteq> [] \<Longrightarrow> \<not> py_in sep (last (py_split sep s))"
proof (induction sep s rule: py_split.induct)
  case (1 sep)
  then show ?case by simp
next
  case (2 sep c cs)
  show ?case
  proof (cases "startswith (c # cs) sep")
    case True
    then show ?thesis using 2 py_split_not_Nil [of sep] by simp
  next
    case False
    obtain p ps where pps: "py_split sep cs = p # ps"
      using py_split_not_Nil [of sep cs] by (cases "py_split sep cs") auto
    show ?thesis
    proof (cases ps)
      case Nil
      then have "p = cs" "\<not> py_in sep cs"
        using py_split_single [of sep cs p] pps 2 by auto
      then show ?thesis using False pps Nil by simp
    next
      case (Cons q qs)
      then show ?thesis using False pps 2 by simp
    qed
  qed
qed

lemma last_split_suffix:
  "sep \<noteq> [] \<Longrightarrow> py_in sep s \<Longrightarrow> \<exists>u. s = u @ sep @ last (py_split sep s)"
proof (induction sep s rule: py_split.induct)
  case (1 sep)
  then show ?case by simp
next
  case (2 sep c cs)
  show ?case
  proof (cases "startswith (c # cs) sep")
    case True
    let ?rest = "drop (length sep - 1) cs"
    have eq: "c # cs = sep @ ?rest" using startswith_split True 2 by blast
    have l: "last (py_split sep (c # cs)) = last (py_split sep ?rest)"
      using True py_split_not_Nil [of sep] by simp
    show ?thesis
    proof (cases "py_in sep ?rest")
      case True
      then obtain u where "?rest = u @ sep @ last (py_split sep ?rest)"
        using 2 \<open>startswith (c # cs) sep\<close> by blast
      then have "c # cs = (sep @ u) @ sep @ last (py_split sep (c # cs))"
        using eq l by simp
      then show ?thesis by blast
    next
      case False
      then have "py_split sep ?rest = [?rest]" by (rule py_split_no_occurrence)
      then have "c # cs = [] @ sep @ last (py_split sep (c # cs))" using eq l by simp
      then show ?thesis by blast
    qed
  next
    case False
    then have incs: "py_in sep cs" using 2 by simp
    then have len: "2 \<le> length (py_split sep cs)" using py_in_split_length 2 by blast
    then obtain p q qs where pps: "py_split sep cs = p # q # qs"
      by (cases "py_split sep cs"; cases "tl (py_split sep cs)") auto
    then have l: "last (py_split sep (c # cs)) = last (py_split sep cs)" using False by simp
    obtain u where "cs = u @ sep @ last (py_split sep cs)" using 2 False incs by blast
    then have "c # cs = (c # u) @ sep @ last (py_split sep (c # cs))" using l by simp
    then show ?thesis by blast
  qed
qed

section \<open>The path of a file header\<close>

lemma py_in_suffix: "py_in sep v \<Longrightarrow> py_in sep (w @ v)"
  by (induction w) auto

lemma token_overlap:
  assumes "w @ '' b/'' @ x = '' b/'' @ y" "w \<noteq> []"
  shows "py_in '' b/'' y"
proof -
  obtain a w1 where w: "w = a # w1" using assms(2) by (cases w) auto
  show ?thesis
  proof (cases w1)
    case Nil
    then show ?thesis using assms(1) w by simp
  next
    case (Cons b w2)
    show ?thesis
    proof (cases w2)
      case Nil
      then show ?thesis using assms(1) w Cons by simp
    next
      case (Cons c w3)
      then have "y = w3 @ '' b/'' @ x" using assms(1) w \<open>w1 = b # w2\<close> by simp
      then show ?thesis using py_in_iff by blast
    qed
  qed
qed

lemma header_path_last_occurrence:
  assumes "line = u @ '' b/'' @ v" "\<not> py_in '' b/'' (drop (Suc (length u)) line)"
  shows "header_path line = v"
proof -
  let ?r = "last (py_split '' b/'' line)"
  have tl: "drop (Suc (length u)) line = ''b/'' @ v" using assms(1) by simp
  have nov: "\<not> py_in '' b/'' v"
    using assms(2) tl py_in_suffix [of "'' b/''" v "''b/''"] by auto
  have "py_in '' b/'' line" using assms(1) py_in_iff by blast
  then obtain u0 where u0: "line = u0 @ '' b/'' @ ?r"
    using last_split_suffix [of "'' b/''" line] by auto
  have nor: "\<not> py_in '' b/'' ?r" using last_split_no_sep [of "'' b/''" line] by simp
  have "u0 @ ('' b/'' @ ?r) = u @ ('' b/'' @ v)" using u0 assms(1) by simp
  then obtain w where w: "u0 = u @ w \<and> w @ '' b/'' @ ?r = '' b/'' @ v \<or>
                          u0 @ w = u \<and> '' b/'' @ ?r = w @ '' b/'' @ v"
    using append_eq_append_conv2 [of u0 "'' b/'' @ ?r" u "'' b/'' @ v"] by blast
  have "w = []"
  proof (rule ccontr)
    assume ne: "w \<noteq> []"
    from w show False
    proof
      assume "u0 = u @ w \<and> w @ '' b/'' @ ?r = '' b/'' @ v"
      then show False using token_overlap [of w ?r v] ne nov by blast
    next
      assume "u0 @ w = u \<and> '' b/'' @ ?r = w @ '' b/'' @ v"
      then have "w @ '' b/'' @ v = '' b/'' @ ?r" by simp
      then show False using token_overlap [of w v ?r] ne nor by blast
    qed
  qed
  then have "?r = v" using w by auto
  then show ?thesis by (simp add: header_path_def)
qed

lemma header_path_no_occurrence: "\<not> py_in '' b/'' line \<Longrightarrow> header_path line = line"
  by (simp add: header_path_def py_split_no_occurrence)

section \<open>The guards of the loop body\<close>

lemma startswith_Nil: "startswith s []"
  by (simp add: startswith_def)

lemma startswith_Cons: "startswith s (d # ds) = (case s of [] \<Rightarrow> False | c # cs \<Rightarrow> c = d \<and> startswith cs ds)"
  by (cases s) (auto simp: startswith_def)

lemma startswith_append: "startswith s (p @ q) \<Longrightarrow> startswith s p"
proof -
  assume "startswith s (p @ q)"
  then have "take (length p) (take (length (p @ q)) s) = take (length p) (p @ q)"
    by (simp add: startswith_def)
  then show ?thesis by (simp add: startswith_def min_def)
qed

lemma file_header_diff: "is_file_header l \<Longrightarrow> startswith l ''diff''"
  using startswith_append [of l "''diff''" "'' --git''"] by (simp add: is_file_header_def)

lemma hunk_not_file: "is_hunk_header l \<Longrightarrow> \<not> is_file_header l"
  by (cases l) (auto simp: is_hunk_header_def is_file_header_def startswith_Cons)

lemma addition_not_header: "is_addition l \<Longrightarrow> \<not> is_file_header l \<and> \<not> is_hunk_header l"
  by (cases l) (auto simp: is_addition_def is_hunk_header_def is_file_header_def startswith_Cons)

lemma deletion_not_header:
  "is_deletion l \<Longrightarrow> \<not> is_file_header l \<and> \<not> is_hunk_header l \<and> \<not> is_addition l"
  by (cases l)
     (auto simp: is_deletion_def is_addition_def is_hunk_header_def is_file_header_def
        startswith_Cons)

lemma context_not_other:
  "is_context l \<Longrightarrow>
     \<not> is_file_header l \<and> \<not> is_hunk_header l \<and> \<not> is_addition l \<and> \<not> is_deletion l"
  using file_header_diff [of l]
  by (auto simp: is_context_def is_deletion_def is_addition_def is_hunk_header_def)

lemma step_addition: "is_addition (lines ! i) \<Longrightarrow> step lines i s = addition_line (lines ! i) s"
  using addition_not_header [of "lines ! i"] by (simp add: step_def Let_def)

lemma step_deletion: "is_deletion (lines ! i) \<Longrightarrow> step lines i s = deletion_line (lines ! i) s"
  using deletion_not_header [of "lines ! i"] by (simp add: step_def Let_def)

lemma step_context: "is_context (lines ! i) \<Longrightarrow> step lines i s = context_line (lines ! i) s"
  using context_not_other [of "lines ! i"] by (simp add: step_def Let_def)

lemma step_hunk: "is_hunk_header (lines ! i) \<Longrightarrow> step lines i s = (case hunk_parse (lines ! i) s of Inl e \<Rightarrow> Inl e | Inr s1 \<Rightarrow> hunk_lookahead lines i s1)"
  using hunk_not_file [of "lines ! i"] by (simp add: step_def Let_def)

lemma startswith_first: "startswith l (c # p) \<Longrightarrow> startswith l (d # q) \<Longrightarrow> c = d"
  by (cases l) (simp_all add: startswith_Cons)

lemma skipped_plus:
  assumes "startswith l ''+++''"
  shows "\<not> is_file_header l \<and> \<not> is_hunk_header l \<and>
         \<not> is_addition l \<and> \<not> is_deletion l \<and> \<not> is_context l"
proof -
  have p: "startswith l ''+''" using startswith_append [of l "''+''" "''++''"] assms by simp
  have "\<not> is_file_header l"
    using startswith_first [OF assms, of "CHR ''d''" "''iff --git''"]
    by (auto simp: is_file_header_def)
  moreover have "\<not> is_hunk_header l"
    using startswith_first [OF assms, of "CHR ''@''" "''@''"]
    by (auto simp: is_hunk_header_def)
  moreover have "\<not> is_addition l" using assms by (simp add: is_addition_def)
  moreover have "\<not> is_deletion l"
    using startswith_first [OF assms, of "CHR ''-''" "[]"]
    by (auto simp: is_deletion_def)
  moreover have "\<not> is_context l" using p by (simp add: is_context_def)
  ultimately show ?thesis by blast
qed

lemma skipped_minus:
  assumes "startswith l ''---''"
  shows "\<not> is_file_header l \<and> \<not> is_hunk_header l \<and>
         \<not> is_addition l \<and> \<not> is_deletion l \<and> \<not> is_context l"
proof -
  have p: "startswith l ''-''" using startswith_append [of l "''-''" "''--''"] assms by simp
  have "\<not> is_file_header l"
    using startswith_first [OF assms, of "CHR ''d''" "''iff --git''"]
    by (auto simp: is_file_header_def)
  moreover have "\<not> is_hunk_header l"
    using startswith_first [OF assms, of "CHR ''@''" "''@''"]
    by (auto simp: is_hunk_header_def)
  moreover have "\<not> is_addition l"
    using startswith_first [OF assms, of "CHR ''+''" "[]"]
    by (auto simp: is_addition_def)
  moreover have "\<not> is_deletion l" using assms by (simp add: is_deletion_def)
  moreover have "\<not> is_context l" using p by (simp add: is_context_def)
  ultimately show ?thesis by blast
qed

lemma skipped_diff:
  assumes "startswith l ''diff''" "\<not> is_file_header l"
  shows "\<not> is_file_header l \<and> \<not> is_hunk_header l \<and>
         \<not> is_addition l \<and> \<not> is_deletion l \<and> \<not> is_context l"
proof -
  have "\<not> is_hunk_header l"
    using startswith_first [OF assms(1), of "CHR ''@''" "''@''"]
    by (auto simp: is_hunk_header_def)
  moreover have "\<not> is_addition l"
    using startswith_first [OF assms(1), of "CHR ''+''" "[]"]
    by (auto simp: is_addition_def)
  moreover have "\<not> is_deletion l"
    using startswith_first [OF assms(1), of "CHR ''-''" "[]"]
    by (auto simp: is_deletion_def)
  moreover have "\<not> is_context l" using assms(1) by (simp add: is_context_def)
  ultimately show ?thesis using assms(2) by blast
qed

lemma step_unclassified:
  "\<not> is_file_header (lines ! i) \<and> \<not> is_hunk_header (lines ! i) \<and>
   \<not> is_addition (lines ! i) \<and> \<not> is_deletion (lines ! i) \<and> \<not> is_context (lines ! i) \<Longrightarrow>
   step lines i s = Inr s"
  by (simp add: step_def)

section \<open>Hunk headers and the lookahead\<close>

lemma extract_class_ok: "py_in ''class '' l \<Longrightarrow> \<exists>c. extract_class l = Inr c"
  using py_in_split_length [of "''class ''" l]
  by (auto simp: extract_class_def py_index_def)

lemma last_class_match_skip:
  "\<not> has_class_def l \<Longrightarrow> last_class_match (l # ctx) = last_class_match ctx"
  by (simp add: last_class_match_def)

lemma scan_context_result:
  "scan_context ctx s =
     Inr (if filter has_class_def ctx = [] then s
          else s\<lparr>current_class := last_class_match ctx\<rparr>)"
proof (induction ctx arbitrary: s)
  case Nil
  then show ?case by simp
next
  case (Cons l ctx)
  show ?case
  proof (cases "has_class_def l")
    case False
    then show ?thesis using Cons.IH [of s] by (simp add: last_class_match_skip)
  next
    case True
    then obtain c where c: "extract_class l = Inr c"
      using extract_class_ok [of l] by (auto simp: has_class_def_def)
    show ?thesis
    proof (cases "filter has_class_def ctx")
      case Nil
      then show ?thesis using True c Cons.IH [of "s\<lparr>current_class := Some c\<rparr>"]
        by (simp add: last_class_match_def)
    next
      case (Cons m ms)
      then show ?thesis using True c Cons.IH [of "s\<lparr>current_class := Some c\<rparr>"]
        by (simp add: last_class_match_def)
    qed
  qed
qed

lemma collect_context_eq:
  "collect_context lines i k acc =
     acc @ filter (\<lambda>l. \<not> startswith l ''+'' \<and> \<not> startswith l ''-'') (take (i + 20 - k) (drop k lines))"
proof (induction lines i k acc rule: collect_context.induct)
  case (1 lines i k acc)
  show ?case
  proof (cases "k < i + 20 \<and> k < length lines")
    case True
    then have d: "drop k lines = lines ! k # drop (Suc k) lines"
      by (simp add: Cons_nth_drop_Suc)
    obtain n where n: "i + 20 - k = Suc n" "i + 20 - Suc k = n"
      using True by (cases "i + 20 - k") auto
    show ?thesis
      using True 1 [OF True refl] d n
      by (subst collect_context.simps) (simp add: Let_def)
  next
    case False
    then show ?thesis
      by (subst collect_context.simps) auto
  qed
qed

lemma hunk_lookahead_result:
  "hunk_lookahead lines i s =
     Inr (if filter has_class_def (lookahead_window lines i) = [] then s
          else s\<lparr>current_class := last_class_match (lookahead_window lines i)\<rparr>)"
proof -
  have "collect_context lines i (i + 1) [] = lookahead_window lines i"
    by (simp add: collect_context_eq lookahead_window_def)
  then show ?thesis
    by (simp only: hunk_lookahead_def scan_context_result)
qed

lemma hunk_parse_reset:
  "hunk_parse line s = Inr s1 \<Longrightarrow> current_class s1 = None \<and> current_method s1 = None"
  by (auto simp: hunk_parse_def split: sum.splits prod.splits)


lemma hunk_parse_cursors:
  "hunk_parse line s = Inr s1 \<Longrightarrow>
     \<exists>old_range new_range a b.
       hunk_ranges line = Inr (old_range, new_range) \<and>
       py_int (range_start old_range) = Inr a \<and> py_int (range_start new_range) = Inr b \<and>
       s1 = s\<lparr>old_line_num := Some (abs a), new_line_num := Some b,
              current_class := None, current_method := None\<rparr>"
  by (auto simp: hunk_parse_def split: sum.splits prod.splits)

lemma last_class_match_None:
  "filter has_class_def window = [] \<Longrightarrow> last_class_match window = None"
  by (simp add: last_class_match_def)

lemma step_hunk_result:
  assumes "is_hunk_header (lines ! i)" "hunk_parse (lines ! i) s = Inr s1"
  shows "step lines i s = Inr (s1\<lparr>current_class := last_class_match (lookahead_window lines i)\<rparr>)"
proof -
  have "current_class s1 = None" using assms(2) hunk_parse_reset by blast
  then have "s1\<lparr>current_class := None\<rparr> = s1" by simp
  then show ?thesis
    using assms step_hunk [of lines i s] last_class_match_None [of "lookahead_window lines i"]
    by (simp add: hunk_lookahead_result)
qed

section \<open>The counters of a run that does not raise\<close>

lemma get_stat_ok: "stats_ok fs \<Longrightarrow> stat_ok (get_stat fs k)"
  by (auto simp: stats_ok_def get_stat_def stat_ok_def default_stat_def split: option.splits)

lemma stats_ok_count_addition: "stats_ok fs \<Longrightarrow> stats_ok (count_addition fs k)"
  using get_stat_ok [of fs k]
  by (auto simp: stats_ok_def count_addition_def Let_def stat_ok_def)

lemma stats_ok_count_deletion: "stats_ok fs \<Longrightarrow> stats_ok (count_deletion fs k)"
  using get_stat_ok [of fs k]
  by (auto simp: stats_ok_def count_deletion_def Let_def stat_ok_def)

lemma stats_ok_count_pass: "stats_ok fs \<Longrightarrow> stats_ok (count_pass lines fs cf)"
  by (induction lines arbitrary: fs cf)
     (auto simp: stats_ok_count_addition stats_ok_count_deletion)

lemma record_change_raises:
  "stats_ok fs \<Longrightarrow> record_change t n line s fs = Inl (KeyError ''line_changes'')"
  using get_stat_ok [of fs "current_file s"]
  by (simp add: record_change_def append_line_change_def Let_def stat_ok_def)

lemma stats_ok_addition_line:
  "stats_ok (file_stats s) \<Longrightarrow> addition_line line s = Inr s' \<Longrightarrow> stats_ok (file_stats s')"
  using stats_ok_count_addition [of "file_stats s" "current_file s"]
  by (auto simp: addition_line_def Let_def record_change_raises split: option.splits)

lemma stats_ok_deletion_line:
  "stats_ok (file_stats s) \<Longrightarrow> deletion_line line s = Inr s' \<Longrightarrow> stats_ok (file_stats s')"
  using stats_ok_count_deletion [of "file_stats s" "current_file s"]
  by (auto simp: deletion_line_def Let_def record_change_raises split: option.splits)

lemma context_line_stats: "context_line line s = Inr s' \<Longrightarrow> file_stats s' = file_stats s"
  by (auto simp: context_line_def Let_def split: if_splits sum.splits)

lemma hunk_step_stats:
  "is_hunk_header (lines ! i) \<Longrightarrow> step lines i s = Inr s' \<Longrightarrow> file_stats s' = file_stats s"
proof -
  assume h: "is_hunk_header (lines ! i)" and st: "step lines i s = Inr s'"
  obtain s1 where s1: "hunk_parse (lines ! i) s = Inr s1"
    using st step_hunk [OF h, of s] by (cases "hunk_parse (lines ! i) s") auto
  have "s' = s1\<lparr>current_class := last_class_match (lookahead_window lines i)\<rparr>"
    using step_hunk_result [OF h s1] st by simp
  then show ?thesis using hunk_parse_cursors [OF s1] by auto
qed

lemma stats_ok_step:
  assumes "stats_ok (file_stats s)" "step lines i s = Inr s'"
  shows "stats_ok (file_stats s')"
proof -
  consider "is_file_header (lines ! i)" | "is_hunk_header (lines ! i)"
    | "is_addition (lines ! i)" | "is_deletion (lines ! i)" | "is_context (lines ! i)"
    | "\<not> is_file_header (lines ! i)" "\<not> is_hunk_header (lines ! i)"
      "\<not> is_addition (lines ! i)" "\<not> is_deletion (lines ! i)" "\<not> is_context (lines ! i)"
    by blast
  then show ?thesis
  proof cases
    case 1
    then show ?thesis using assms by (auto simp: step_def file_header_def)
  next
    case 2
    then show ?thesis using assms hunk_step_stats by auto
  next
    case 3
    then show ?thesis using assms stats_ok_addition_line by (simp add: step_addition)
  next
    case 4
    then show ?thesis using assms stats_ok_deletion_line by (simp add: step_deletion)
  next
    case 5
    then show ?thesis using assms context_line_stats by (simp add: step_context)
  next
    case 6
    then show ?thesis using assms by (simp add: step_def)
  qed
qed

lemma stats_ok_run_loop:
  "stats_ok (file_stats s) \<Longrightarrow> run_loop lines i s = Inr s' \<Longrightarrow> stats_ok (file_stats s')"
proof (induction lines i s rule: run_loop.induct)
  case (1 lines i s)
  show ?case
  proof (cases "i < length lines")
    case True
    then obtain s1 where s1: "step lines i s = Inr s1"
      using "1.prems"(2) by (subst (asm) run_loop.simps) (auto split: sum.splits)
    then have r: "run_loop lines (Suc i) s1 = Inr s'"
      using True "1.prems"(2) by (subst (asm) run_loop.simps) simp
    have "stats_ok (file_stats s1)" using stats_ok_step [OF "1.prems"(1) s1] .
    then show ?thesis using "1.IH" [OF True s1 _ r] by simp
  next
    case False
    then show ?thesis using "1.prems" by (subst (asm) run_loop.simps) simp
  qed
qed

lemma stats_ok_classify: "classify lines = Inr fs \<Longrightarrow> stats_ok fs"
proof -
  assume c: "classify lines = Inr fs"
  have e: "stats_ok Map.empty" by (simp add: stats_ok_def)
  let ?s0 = "initial_state (count_pass lines Map.empty None)"
  have "stats_ok (file_stats ?s0)"
    using stats_ok_count_pass [OF e] by (simp add: initial_state_def)
  moreover obtain s' where "run_loop lines 0 ?s0 = Inr s'" "fs = file_stats s'"
    using c by (auto simp: classify_def split: sum.splits)
  ultimately show ?thesis using stats_ok_run_loop by blast
qed

section \<open>Failure of the loop\<close>

lemma py_int_error: "py_int t = Inl e \<Longrightarrow> e = ValueError t"
  by (auto simp: py_int_def split: option.splits)

lemma run_loop_fails_at:
  "step lines i s = Inl e \<Longrightarrow> i < length lines \<Longrightarrow> run_loop lines i s = Inl e"
  by (subst run_loop.simps) simp

lemma run_loop_reaches_failure:
  "i < length lines \<Longrightarrow> (\<And>s. \<exists>e. step lines i s = Inl e) \<Longrightarrow> j \<le> i \<Longrightarrow>
     \<exists>e. run_loop lines j s = Inl e"
proof (induction "i - j" arbitrary: j s)
  case 0
  then have "j = i" by simp
  then show ?case using 0 run_loop_fails_at by blast
next
  case (Suc d)
  then have j: "j < length lines" "Suc j \<le> i" "d = i - Suc j" by auto
  show ?case
  proof (cases "step lines j s")
    case (Inl e)
    then show ?thesis using j run_loop_fails_at by blast
  next
    case (Inr s1)
    obtain e where "run_loop lines (Suc j) s1 = Inl e"
      using Suc.hyps(1) [OF j(3) Suc.prems(1) Suc.prems(2) j(2)] by blast
    then show ?thesis using Inr j by (subst run_loop.simps) simp
  qed
qed

lemma step_bad_hunk:
  assumes "is_hunk_header (lines ! i)" "hunk_ranges (lines ! i) = Inr (old_range, new_range)"
    "isl (py_int (range_start old_range)) \<or> isl (py_int (range_start new_range))"
  shows "\<exists>tok. (tok = range_start old_range \<or> tok = range_start new_range) \<and>
           py_int tok = Inl (ValueError tok) \<and> step lines i s = Inl (ValueError tok)"
proof (cases "py_int (range_start old_range)")
  case (Inl e)
  then have "e = ValueError (range_start old_range)" using py_int_error by blast
  then show ?thesis using Inl assms(1,2) by (simp add: step_hunk hunk_parse_def)
next
  case (Inr a)
  then obtain e where e: "py_int (range_start new_range) = Inl e"
    using assms(3) by (cases "py_int (range_start new_range)") auto
  then have "e = ValueError (range_start new_range)" using py_int_error by blast
  then show ?thesis using Inr e assms(1,2) by (simp add: step_hunk hunk_parse_def)
qed

section \<open>Evaluation of the classifier on concrete input\<close>

lemmas model_defs =
  classify_def initial_state_def step_def
  is_file_header_def is_hunk_header_def is_addition_def is_deletion_def is_context_def
  startswith_def context_line_def strip_def addition_line_def deletion_line_def
  record_change_def append_line_change_def append_class_method_change_def
  count_addition_def count_deletion_def get_stat_def default_stat_def
  file_header_def header_path_def hunk_parse_def hunk_ranges_def range_start_def
  hunk_lookahead_def has_class_def_def has_method_def_def
  extract_class_def extract_method_def py_index_def py_int_def parse_signed_def
  is_space_def is_int_space_def is_digit_def digit_val_def truthy_def class_method_key_def
  run_loop.simps collect_context.simps

text \<open>
  C1.  On the six-line diff of the scenario the classifier does not produce a summary
  for \<^verbatim>\<open>foo.py\<close>: the first pass has counted one addition and one deletion, the second
  pass reaches the \<^verbatim>\<open>+\<close> line with the new cursor at 2, counts the addition again and
  raises \<^verbatim>\<open>KeyError('line_changes')\<close> at line 143, since no dictionary of
  \<^verbatim>\<open>file_stats\<close> ever gets that key.
\<close>

theorem scenario_raises_KeyError:
  "classify [''diff --git a/foo.py b/foo.py'', ''@@ -1,3 +1,4 @@'', '' class Foo:'',
             ''+    def bar(self): pass'', '' '', ''-    pass'']
   = Inl (KeyError ''line_changes'')"
  by (simp add: model_defs)

text \<open>
  C8.  For the empty diff text the function returns a result, not an error; its
  per-file mapping is empty, and the file list is the split of the stripped output of
  \<^verbatim>\<open>git diff-tree\<close>, which for an empty output is the single empty string.
\<close>

theorem empty_diff_result:
  "analyze_commit_changes files_out stats_out [] =
     Result \<lparr>files = Map.empty, files_list = py_split [CHR 0x0A] (strip files_out),
             diff_summary = strip stats_out, full_diff = []\<rparr>
   \<and> py_split [CHR 0x0A] (strip []) = [[]]"
  by (simp add: analyze_commit_changes_def model_defs)

section \<open>Classification of the lines\<close>

text \<open>
  C7.  The claim as stated fails: the line \<^verbatim>\<open>+++ b/foo.py\<close> is neither a file header nor
  a hunk header, and the guards of lines 131, 160 and 190 all reject it; the loop
  body leaves the state as it is.
\<close>

theorem boundary_line_unclassified:
  "\<not> is_file_header ''+++ b/foo.py'' \<and> \<not> is_hunk_header ''+++ b/foo.py'' \<and>
   \<not> is_addition ''+++ b/foo.py'' \<and> \<not> is_deletion ''+++ b/foo.py'' \<and>
   \<not> is_context ''+++ b/foo.py'' \<and>
   step [''+++ b/foo.py''] 0 (initial_state Map.empty) = Inr (initial_state Map.empty)"
  by (simp add: model_defs)

text \<open>
  C7, amended.  No line passes more than one of the three guards Addition, Deletion
  and Context.  A line that is neither a file header nor a hunk header and that starts
  with none of \<^verbatim>\<open>+++\<close>, \<^verbatim>\<open>---\<close> and \<^verbatim>\<open>diff\<close> passes exactly one of them, and the loop
  body runs the branch of that guard.  A line that starts with \<^verbatim>\<open>+++\<close> or with \<^verbatim>\<open>---\<close>,
  and a line that starts with \<^verbatim>\<open>diff\<close> and is not a file header, is neither a header
  nor passes any of the three guards: the loop body skips it and leaves the state as
  it is.
\<close>

theorem classification_exclusive_total:
  "\<not> (is_addition l \<and> is_deletion l) \<and> \<not> (is_addition l \<and> is_context l) \<and>
   \<not> (is_deletion l \<and> is_context l) \<and>
   (\<not> is_file_header l \<and> \<not> is_hunk_header l \<and>
    \<not> startswith l ''+++'' \<and> \<not> startswith l ''---'' \<and> \<not> startswith l ''diff'' \<longrightarrow>
      is_addition l \<and> step [l] 0 s = addition_line l s \<or>
      is_deletion l \<and> step [l] 0 s = deletion_line l s \<or>
      is_context l \<and> step [l] 0 s = context_line l s) \<and>
   (startswith l ''+++'' \<or> startswith l ''---'' \<or>
    startswith l ''diff'' \<and> \<not> is_file_header l \<longrightarrow>
      \<not> is_file_header l \<and> \<not> is_hunk_header l \<and>
      \<not> is_addition l \<and> \<not> is_deletion l \<and> \<not> is_context l \<and>
      step [l] 0 s = Inr s)"
proof -
  have ex: "\<not> (is_addition l \<and> is_deletion l)" "\<not> (is_addition l \<and> is_context l)"
    "\<not> (is_deletion l \<and> is_context l)"
    using deletion_not_header [of l] context_not_other [of l] by auto
  have tot: "is_addition l \<or> is_deletion l \<or> is_context l"
    if "\<not> is_hunk_header l" "\<not> startswith l ''+++''" "\<not> startswith l ''---''"
       "\<not> startswith l ''diff''"
    using that by (auto simp: is_addition_def is_deletion_def is_context_def is_hunk_header_def)
  have st: "is_addition l \<Longrightarrow> step [l] 0 s = addition_line l s"
    "is_deletion l \<Longrightarrow> step [l] 0 s = deletion_line l s"
    "is_context l \<Longrightarrow> step [l] 0 s = context_line l s"
    using step_addition [of "[l]" 0 s] step_deletion [of "[l]" 0 s] step_context [of "[l]" 0 s]
    by simp_all
  have none: "\<not> is_file_header l \<and> \<not> is_hunk_header l \<and>
      \<not> is_addition l \<and> \<not> is_deletion l \<and> \<not> is_context l"
    if "startswith l ''+++'' \<or> startswith l ''---'' \<or>
        startswith l ''diff'' \<and> \<not> is_file_header l"
    using that skipped_plus [of l] skipped_minus [of l] skipped_diff [of l] by blast
  have skip: "step [l] 0 s = Inr s"
    if "\<not> is_file_header l \<and> \<not> is_hunk_header l \<and>
        \<not> is_addition l \<and> \<not> is_deletion l \<and> \<not> is_context l"
    using that step_unclassified [of "[l]" 0 s] by simp
  show ?thesis using ex tot st none skip by blast
qed

theorem classification_exclusive_total_witness:
  "(is_addition ''+x = 1'' \<and> \<not> is_deletion ''+x = 1'' \<and> \<not> is_context ''+x = 1'' \<and>
    step [''+x = 1''] 0 (initial_state Map.empty)
      = addition_line ''+x = 1'' (initial_state Map.empty)) \<and>
   (is_deletion ''-x = 0'' \<and> \<not> is_addition ''-x = 0'' \<and> \<not> is_context ''-x = 0'' \<and>
    step [''-x = 0''] 0 (initial_state Map.empty)
      = deletion_line ''-x = 0'' (initial_state Map.empty)) \<and>
   (is_context '' y = 2'' \<and> \<not> is_addition '' y = 2'' \<and> \<not> is_deletion '' y = 2'' \<and>
    step ['' y = 2''] 0 (initial_state Map.empty)
      = context_line '' y = 2'' (initial_state Map.empty)) \<and>
   (startswith ''--- a/foo.py'' ''---'' \<and>
    \<not> is_deletion ''--- a/foo.py'' \<and> \<not> is_context ''--- a/foo.py'' \<and>
    step [''--- a/foo.py''] 0
         ((initial_state Map.empty)\<lparr>old_line_num := Some 7, new_line_num := Some 9\<rparr>)
      = Inr ((initial_state Map.empty)\<lparr>old_line_num := Some 7, new_line_num := Some 9\<rparr>)) \<and>
   (startswith ''diff --cc foo.py'' ''diff'' \<and> \<not> is_file_header ''diff --cc foo.py'' \<and>
    \<not> is_context ''diff --cc foo.py'' \<and>
    step [''diff --cc foo.py''] 0
         ((initial_state Map.empty)\<lparr>old_line_num := Some 7, new_line_num := Some 9\<rparr>)
      = Inr ((initial_state Map.empty)\<lparr>old_line_num := Some 7, new_line_num := Some 9\<rparr>))"
proof -
  let ?s = "(initial_state Map.empty)\<lparr>old_line_num := Some 7, new_line_num := Some 9\<rparr>"
  have m: "startswith ''--- a/foo.py'' ''---''" by (simp add: startswith_def)
  have d: "startswith ''diff --cc foo.py'' ''diff''" "\<not> is_file_header ''diff --cc foo.py''"
    by (simp_all add: startswith_def is_file_header_def)
  have a: "is_addition ''+x = 1''" "is_deletion ''-x = 0''" "is_context '' y = 2''"
    by (simp_all add: is_addition_def is_deletion_def is_context_def startswith_def)
  have h: "\<not> is_file_header ''+x = 1''" "\<not> is_hunk_header ''+x = 1''"
    "\<not> is_file_header ''-x = 0''" "\<not> is_hunk_header ''-x = 0''"
    "\<not> is_file_header '' y = 2''" "\<not> is_hunk_header '' y = 2''"
    by (simp_all add: is_file_header_def is_hunk_header_def startswith_def)
  have n: "\<not> startswith ''+x = 1'' ''+++''" "\<not> startswith ''+x = 1'' ''---''"
    "\<not> startswith ''+x = 1'' ''diff''"
    "\<not> startswith ''-x = 0'' ''+++''" "\<not> startswith ''-x = 0'' ''---''"
    "\<not> startswith ''-x = 0'' ''diff''"
    "\<not> startswith '' y = 2'' ''+++''" "\<not> startswith '' y = 2'' ''---''"
    "\<not> startswith '' y = 2'' ''diff''"
    by (simp_all add: startswith_def)
  have w1: "is_addition ''+x = 1'' \<and> \<not> is_deletion ''+x = 1'' \<and> \<not> is_context ''+x = 1'' \<and>
    step [''+x = 1''] 0 (initial_state Map.empty)
      = addition_line ''+x = 1'' (initial_state Map.empty)"
    using classification_exclusive_total [of "''+x = 1''" "initial_state Map.empty"]
      a(1) h(1,2) n(1,2,3)
    by blast
  have w2: "is_deletion ''-x = 0'' \<and> \<not> is_addition ''-x = 0'' \<and> \<not> is_context ''-x = 0'' \<and>
    step [''-x = 0''] 0 (initial_state Map.empty)
      = deletion_line ''-x = 0'' (initial_state Map.empty)"
    using classification_exclusive_total [of "''-x = 0''" "initial_state Map.empty"]
      a(2) h(3,4) n(4,5,6)
    by blast
  have w3: "is_context '' y = 2'' \<and> \<not> is_addition '' y = 2'' \<and> \<not> is_deletion '' y = 2'' \<and>
    step ['' y = 2''] 0 (initial_state Map.empty)
      = context_line '' y = 2'' (initial_state Map.empty)"
    using classification_exclusive_total [of "'' y = 2''" "initial_state Map.empty"]
      a(3) h(5,6) n(7,8,9)
    by blast
  have w4: "\<not> is_deletion ''--- a/foo.py'' \<and> \<not> is_context ''--- a/foo.py'' \<and>
    step [''--- a/foo.py''] 0 ?s = Inr ?s"
    using classification_exclusive_total [of "''--- a/foo.py''" ?s] m
    by blast
  have w5: "\<not> is_context ''diff --cc foo.py'' \<and> step [''diff --cc foo.py''] 0 ?s = Inr ?s"
    using classification_exclusive_total [of "''diff --cc foo.py''" ?s] d
    by blast
  show ?thesis
    using w1 w2 w3 w4 w5 m d by (simp only: simp_thms)
qed

section \<open>Hunk headers\<close>

text \<open>
  C3.  The claim as stated fails: with two class definitions in the lookahead window
  the class in effect after the hunk header is that of the last one (\<^verbatim>\<open>B\<close>), not of the
  first (\<^verbatim>\<open>A\<close>); the loop of lines 124-128 has no \<^verbatim>\<open>break\<close>.
\<close>

theorem lookahead_not_first_match:
  "step [''@@ -1 +1 @@'', '' class A:'', '' class B:''] 0 (initial_state Map.empty)
     = Inr ((initial_state Map.empty)
              \<lparr>old_line_num := Some 1, new_line_num := Some 1, current_class := Some ''B''\<rparr>) \<and>
   hd (filter has_class_def
         (lookahead_window [''@@ -1 +1 @@'', '' class A:'', '' class B:''] 0)) = '' class A:'' \<and>
   extract_class '' class A:'' = Inr ''A''"
  by (simp add: model_defs lookahead_window_def)

text \<open>
  C3, amended.  At a hunk header at index \<open>i\<close> whose ranges parse, after the reset the
  lookahead inspects the lines at \<open>i + 1\<close>, ..., \<open>i + 19\<close> that start with neither \<^verbatim>\<open>+\<close>
  nor \<^verbatim>\<open>-\<close>; the class in effect afterwards is that of the last of them with a class
  definition (none if there is none).  The lookahead never raises and changes nothing
  else: the cursors stay as parsed from the header, and the scan goes on at \<open>i + 1\<close>.
\<close>

theorem lookahead_last_match:
  assumes "i < length lines" "is_hunk_header (lines ! i)" "hunk_parse (lines ! i) s = Inr s1"
  shows "step lines i s
           = Inr (s1\<lparr>current_class := last_class_match (lookahead_window lines i)\<rparr>) \<and>
         run_loop lines i s
           = run_loop lines (Suc i)
               (s1\<lparr>current_class := last_class_match (lookahead_window lines i)\<rparr>)"
  using assms step_hunk_result [OF assms(2,3)]
  by (subst run_loop.simps) simp

theorem lookahead_last_match_witness:
  "is_hunk_header ([''@@ -3,2 +3,3 @@'', '' class Foo(Base):'', ''+x'', '' class Bar:''] ! 0) \<and>
   hunk_parse ''@@ -3,2 +3,3 @@'' (initial_state Map.empty)
     = Inr ((initial_state Map.empty)\<lparr>old_line_num := Some 3, new_line_num := Some 3\<rparr>) \<and>
   step [''@@ -3,2 +3,3 @@'', '' class Foo(Base):'', ''+x'', '' class Bar:''] 0
        (initial_state Map.empty)
     = Inr ((initial_state Map.empty)
              \<lparr>old_line_num := Some 3, new_line_num := Some 3, current_class := Some ''Bar''\<rparr>)"
proof -
  let ?L = "[''@@ -3,2 +3,3 @@'', '' class Foo(Base):'', ''+x'', '' class Bar:'']"
  let ?s1 = "(initial_state Map.empty)\<lparr>old_line_num := Some 3, new_line_num := Some 3\<rparr>"
  have h1: "0 < length ?L" by simp
  have h2: "is_hunk_header (?L ! 0)" by (simp add: is_hunk_header_def startswith_def)
  have h3: "hunk_parse (?L ! 0) (initial_state Map.empty) = Inr ?s1"
    by (simp add: model_defs)
  have w: "last_class_match (lookahead_window ?L 0) = Some ''Bar''"
    by (simp add: last_class_match_def lookahead_window_def model_defs)
  show ?thesis
    using lookahead_last_match [OF h1 h2 h3] h2 h3 w by simp
qed

text \<open>
  C6.  The loop body at a file header ends with class and method unset.  At a hunk
  header that is processed without error, the state after the parse of the header
  (lines 101-112), from which the lookahead starts, has class and method unset; the
  lookahead leaves the method unset.
\<close>

theorem context_reset_at_headers:
  "(is_file_header (lines ! i) \<longrightarrow>
      (\<exists>s'. step lines i s = Inr s' \<and> current_class s' = None \<and> current_method s' = None)) \<and>
   (is_hunk_header (lines ! i) \<and> step lines i s = Inr s' \<longrightarrow>
      (\<exists>s1. hunk_parse (lines ! i) s = Inr s1 \<and>
            current_class s1 = None \<and> current_method s1 = None \<and>
            hunk_lookahead lines i s1 = Inr s' \<and> current_method s' = None))"
proof -
  have a: "step lines i s = Inr (file_header (lines ! i) s)" if "is_file_header (lines ! i)"
    using that by (simp add: step_def)
  have b: "\<exists>s1. hunk_parse (lines ! i) s = Inr s1 \<and>
            current_class s1 = None \<and> current_method s1 = None \<and>
            hunk_lookahead lines i s1 = Inr s' \<and> current_method s' = None"
    if h: "is_hunk_header (lines ! i)" and st: "step lines i s = Inr s'"
  proof -
    obtain s1 where s1: "hunk_parse (lines ! i) s = Inr s1"
      using st step_hunk [OF h, of s] by (cases "hunk_parse (lines ! i) s") auto
    then have la: "hunk_lookahead lines i s1 = Inr s'" using st step_hunk [OF h, of s] by simp
    have r: "current_class s1 = None \<and> current_method s1 = None"
      using s1 hunk_parse_reset by blast
    have "current_method s' = current_method s1"
      using la by (auto simp: hunk_lookahead_result split: if_splits)
    then show ?thesis using s1 la r by auto
  qed
  show ?thesis using a b by (auto simp: file_header_def)
qed

theorem context_reset_at_headers_witness:
  "(is_file_header ''diff --git a/foo.py b/foo.py'' \<and>
    (\<exists>s'. step [''diff --git a/foo.py b/foo.py''] 0
              ((initial_state Map.empty)\<lparr>current_class := Some ''Foo'',
                                          current_method := Some ''bar''\<rparr>) = Inr s' \<and>
          current_class s' = None \<and> current_method s' = None)) \<and>
   (is_hunk_header ''@@ -1,3 +1,4 @@'' \<and>
    (\<exists>s1. hunk_parse ''@@ -1,3 +1,4 @@''
              ((initial_state Map.empty)\<lparr>current_class := Some ''Foo'',
                                          current_method := Some ''bar''\<rparr>) = Inr s1 \<and>
          current_class s1 = None \<and> current_method s1 = None))"
proof -
  let ?s = "(initial_state Map.empty)\<lparr>current_class := Some ''Foo'',
                                        current_method := Some ''bar''\<rparr>"
  have f: "is_file_header ([''diff --git a/foo.py b/foo.py''] ! 0)"
    by (simp add: is_file_header_def startswith_def)
  have h: "is_hunk_header ([''@@ -1,3 +1,4 @@'', '' class Foo:''] ! 0)"
    by (simp add: is_hunk_header_def startswith_def)
  have st: "step [''@@ -1,3 +1,4 @@'', '' class Foo:''] 0 ?s
              = Inr (?s\<lparr>old_line_num := Some 1, new_line_num := Some 1,
                        current_class := Some ''Foo'', current_method := None\<rparr>)"
    by (simp add: model_defs)
  show ?thesis
    using context_reset_at_headers [of "[''diff --git a/foo.py b/foo.py'']" 0 ?s] f
      context_reset_at_headers [of "[''@@ -1,3 +1,4 @@'', '' class Foo:'']" 0 ?s, OF] h st
    by auto
qed

text \<open>
  C5.  At a hunk header that is processed without error, the old cursor is the
  absolute value of the integer at the start of the first range token and the new
  cursor the integer at the start of the second.  The header \<^verbatim>\<open>@@ -10 +10 @@\<close>, without
  lengths, is processed without error and sets both cursors to 10.
\<close>

theorem hunk_header_sets_cursors:
  "(is_hunk_header (lines ! i) \<and> step lines i s = Inr s' \<longrightarrow>
      (\<exists>old_range new_range a b.
         hunk_ranges (lines ! i) = Inr (old_range, new_range) \<and>
         py_int (range_start old_range) = Inr a \<and>
         py_int (range_start new_range) = Inr b \<and>
         old_line_num s' = Some (abs a) \<and> new_line_num s' = Some b)) \<and>
   hunk_ranges ''@@ -10 +10 @@'' = Inr (''-10'', ''+10'') \<and>
   step [''@@ -10 +10 @@''] 0 s
     = Inr (s\<lparr>old_line_num := Some 10, new_line_num := Some 10,
              current_class := None, current_method := None\<rparr>)"
proof -
  have a: "\<exists>old_range new_range a b.
         hunk_ranges (lines ! i) = Inr (old_range, new_range) \<and>
         py_int (range_start old_range) = Inr a \<and>
         py_int (range_start new_range) = Inr b \<and>
         old_line_num s' = Some (abs a) \<and> new_line_num s' = Some b"
    if h: "is_hunk_header (lines ! i)" and st: "step lines i s = Inr s'"
  proof -
    obtain s1 where s1: "hunk_parse (lines ! i) s = Inr s1"
      using st step_hunk [OF h, of s] by (cases "hunk_parse (lines ! i) s") auto
    have "s' = s1\<lparr>current_class := last_class_match (lookahead_window lines i)\<rparr>"
      using step_hunk_result [OF h s1] st by simp
    then show ?thesis using hunk_parse_cursors [OF s1] by auto
  qed
  have b: "hunk_ranges ''@@ -10 +10 @@'' = Inr (''-10'', ''+10'')"
    by (simp add: model_defs)
  have c: "step [''@@ -10 +10 @@''] 0 s
     = Inr (s\<lparr>old_line_num := Some 10, new_line_num := Some 10,
              current_class := None, current_method := None\<rparr>)"
    by (simp add: model_defs)
  show ?thesis using a b c by blast
qed

theorem hunk_header_sets_cursors_witness:
  "is_hunk_header ''@@ -12,7 +15,9 @@ def f():'' \<and>
   (\<exists>s'. step [''@@ -12,7 +15,9 @@ def f():''] 0 (initial_state Map.empty) = Inr s' \<and>
         old_line_num s' = Some 12 \<and> new_line_num s' = Some 15) \<and>
   hunk_ranges ''@@ -12,7 +15,9 @@ def f():'' = Inr (''-12,7'', ''+15,9'') \<and>
   py_int (range_start ''-12,7'') = Inr (- 12) \<and> py_int (range_start ''+15,9'') = Inr 15"
proof -
  let ?L = "[''@@ -12,7 +15,9 @@ def f():'']"
  let ?s' = "(initial_state Map.empty)\<lparr>old_line_num := Some 12, new_line_num := Some 15\<rparr>"
  have h: "is_hunk_header (?L ! 0)" by (simp add: is_hunk_header_def startswith_def)
  have st: "step ?L 0 (initial_state Map.empty) = Inr ?s'" by (simp add: model_defs)
  have r: "hunk_ranges ''@@ -12,7 +15,9 @@ def f():'' = Inr (''-12,7'', ''+15,9'')"
    by (simp add: model_defs)
  have p: "py_int (range_start ''-12,7'') = Inr (- 12)" "py_int (range_start ''+15,9'') = Inr 15"
    by (simp_all add: model_defs)
  show ?thesis
    using hunk_header_sets_cursors [of ?L 0 "initial_state Map.empty" ?s'] h st r p
    by auto
qed

section \<open>Counters and recorded changes\<close>

text \<open>
  C2.  The claim as stated fails: for the diff of one file header and one \<^verbatim>\<open>+\<close> line
  the classifier returns a summary whose counter of additions is 2 (both passes count
  the line) while no change is recorded (no hunk header has set the cursor).
\<close>

theorem counter_exceeds_recorded:
  "summary_of (classify [''diff --git a/f.py b/f.py'', ''+x = 1'']) (Some ''f.py'')
     = Inr (Some \<lparr>additions = 2, deletions = 0, changes = 2,
                   line_changes = None, class_method_changes = None\<rparr>) \<and>
   recorded Addition \<lparr>additions = 2, deletions = 0, changes = 2,
                      line_changes = None, class_method_changes = None\<rparr> = 0"
  by (simp add: model_defs recorded_def summary_of_def)

text \<open>
  C2, amended.  For every file summary the classifier returns,
  \<open>additions + deletions = changes\<close>, and the number of recorded changes of each type
  is at most the counter of that type.
\<close>

theorem counters_consistent:
  assumes "classify lines = Inr fs" "fs k = Some st"
  shows "additions st + deletions st = changes st \<and>
         int (recorded Addition st) \<le> additions st \<and>
         int (recorded Deletion st) \<le> deletions st"
  using stats_ok_classify [OF assms(1)] assms(2)
  by (auto simp: stats_ok_def stat_ok_def recorded_def)

theorem counters_consistent_witness:
  "classify [''diff --git a/f.py b/f.py'', ''+x = 1'', ''-y = 2'', ''+z'']
     = Inr [Some ''f.py'' \<mapsto> \<lparr>additions = 4, deletions = 2, changes = 6,
                               line_changes = None, class_method_changes = None\<rparr>] \<and>
   additions \<lparr>additions = 4, deletions = 2, changes = 6,
              line_changes = None, class_method_changes = None\<rparr>
   + deletions \<lparr>additions = 4, deletions = 2, changes = 6,
                line_changes = None, class_method_changes = None\<rparr>
   = changes \<lparr>additions = 4, deletions = 2, changes = 6,
              line_changes = None, class_method_changes = None\<rparr> \<and>
   int (recorded Addition \<lparr>additions = 4, deletions = 2, changes = 6,
                           line_changes = None, class_method_changes = None\<rparr>)
   \<le> additions \<lparr>additions = 4, deletions = 2, changes = 6,
                 line_changes = None, class_method_changes = None\<rparr>"
proof -
  let ?L = "[''diff --git a/f.py b/f.py'', ''+x = 1'', ''-y = 2'', ''+z'']"
  let ?st = "\<lparr>additions = 4, deletions = 2, changes = 6,
              line_changes = None, class_method_changes = None\<rparr>"
  have c: "classify ?L = Inr [Some ''f.py'' \<mapsto> ?st]"
    by (simp add: model_defs)
  have k: "[Some ''f.py'' \<mapsto> ?st] (Some ''f.py'') = Some ?st" by simp
  show ?thesis using counters_consistent [OF c k] c by simp
qed

text \<open>
  C10.  At an Addition line reached while the new cursor is unset, and at a Deletion
  line reached while the old cursor is unset, the loop body does not raise and
  changes nothing but \<^verbatim>\<open>file_stats\<close>: the counter of the line's type and \<^verbatim>\<open>changes\<close> of
  the current file grow by one, and the recorded lists of that file stay as they are.
  So the counters can exceed the number of recorded changes: the diff of the two
  lines \<^verbatim>\<open>-old\<close> and \<^verbatim>\<open>+new\<close> yields counters 2, 2 and 4 and no recorded change.
\<close>

theorem unset_cursor_counts_without_record:
  "(is_addition (lines ! i) \<and> new_line_num s = None \<longrightarrow>
      step lines i s
        = Inr (s\<lparr>file_stats := count_addition (file_stats s) (current_file s)\<rparr>)) \<and>
   (is_deletion (lines ! i) \<and> old_line_num s = None \<longrightarrow>
      step lines i s
        = Inr (s\<lparr>file_stats := count_deletion (file_stats s) (current_file s)\<rparr>)) \<and>
   additions (get_stat (count_addition fs k) k) = additions (get_stat fs k) + 1 \<and>
   changes (get_stat (count_addition fs k) k) = changes (get_stat fs k) + 1 \<and>
   line_changes (get_stat (count_addition fs k) k) = line_changes (get_stat fs k) \<and>
   class_method_changes (get_stat (count_addition fs k) k)
     = class_method_changes (get_stat fs k) \<and>
   deletions (get_stat (count_deletion fs k) k) = deletions (get_stat fs k) + 1 \<and>
   changes (get_stat (count_deletion fs k) k) = changes (get_stat fs k) + 1 \<and>
   line_changes (get_stat (count_deletion fs k) k) = line_changes (get_stat fs k) \<and>
   class_method_changes (get_stat (count_deletion fs k) k)
     = class_method_changes (get_stat fs k) \<and>
   summary_of (classify [''-old'', ''+new'']) None
     = Inr (Some \<lparr>additions = 2, deletions = 2, changes = 4,
                   line_changes = None, class_method_changes = None\<rparr>)"
proof -
  have a: "step lines i s
        = Inr (s\<lparr>file_stats := count_addition (file_stats s) (current_file s)\<rparr>)"
    if "is_addition (lines ! i)" "new_line_num s = None"
    using that by (simp add: step_addition addition_line_def)
  have d: "step lines i s
        = Inr (s\<lparr>file_stats := count_deletion (file_stats s) (current_file s)\<rparr>)"
    if "is_deletion (lines ! i)" "old_line_num s = None"
    using that by (simp add: step_deletion deletion_line_def)
  have ca: "additions (get_stat (count_addition fs k) k) = additions (get_stat fs k) + 1"
    "changes (get_stat (count_addition fs k) k) = changes (get_stat fs k) + 1"
    "line_changes (get_stat (count_addition fs k) k) = line_changes (get_stat fs k)"
    "class_method_changes (get_stat (count_addition fs k) k)
       = class_method_changes (get_stat fs k)"
    by (simp_all add: count_addition_def get_stat_def Let_def)
  have cd: "deletions (get_stat (count_deletion fs k) k) = deletions (get_stat fs k) + 1"
    "changes (get_stat (count_deletion fs k) k) = changes (get_stat fs k) + 1"
    "line_changes (get_stat (count_deletion fs k) k) = line_changes (get_stat fs k)"
    "class_method_changes (get_stat (count_deletion fs k) k)
       = class_method_changes (get_stat fs k)"
    by (simp_all add: count_deletion_def get_stat_def Let_def)
  have e: "summary_of (classify [''-old'', ''+new'']) None
     = Inr (Some \<lparr>additions = 2, deletions = 2, changes = 4,
                   line_changes = None, class_method_changes = None\<rparr>)"
    by (simp add: model_defs summary_of_def)
  show ?thesis using a d ca cd e by blast
qed

theorem unset_cursor_counts_without_record_witness:
  "(is_addition ''+new'' \<and> new_line_num (initial_state Map.empty) = None \<and>
    step [''+new''] 0 (initial_state Map.empty)
      = Inr ((initial_state Map.empty)
               \<lparr>file_stats := [None \<mapsto> \<lparr>additions = 1, deletions = 0, changes = 1,
                                       line_changes = None, class_method_changes = None\<rparr>]\<rparr>)) \<and>
   (is_deletion ''-old'' \<and> old_line_num (initial_state Map.empty) = None \<and>
    step [''-old''] 0 (initial_state Map.empty)
      = Inr ((initial_state Map.empty)
               \<lparr>file_stats := [None \<mapsto> \<lparr>additions = 0, deletions = 1, changes = 1,
                                       line_changes = None, class_method_changes = None\<rparr>]\<rparr>))"
proof -
  have a: "is_addition ([''+new''] ! 0)" "is_deletion ([''-old''] ! 0)"
    by (simp_all add: is_addition_def is_deletion_def startswith_def)
  have n: "new_line_num (initial_state Map.empty) = None"
    "old_line_num (initial_state Map.empty) = None"
    "current_file (initial_state Map.empty) = None"
    "file_stats (initial_state Map.empty) = Map.empty"
    by (simp_all add: initial_state_def)
  have ca: "count_addition Map.empty None
      = [None \<mapsto> \<lparr>additions = 1, deletions = 0, changes = 1,
                    line_changes = None, class_method_changes = None\<rparr>]"
    "count_deletion Map.empty None
      = [None \<mapsto> \<lparr>additions = 0, deletions = 1, changes = 1,
                    line_changes = None, class_method_changes = None\<rparr>]"
    by (simp_all add: count_addition_def count_deletion_def get_stat_def default_stat_def)
  show ?thesis
    using unset_cursor_counts_without_record [of "[''+new'']" 0 "initial_state Map.empty" Map.empty None]
      unset_cursor_counts_without_record [of "[''-old'']" 0 "initial_state Map.empty" Map.empty None] a n ca
    by simp
qed

section \<open>Malformed hunk headers\<close>

text \<open>
  C4.  The claim as stated fails: for the hunk header \<^verbatim>\<open>@@ -a,b +1,1 @@\<close> the function
  does not raise; it returns the error dictionary of the \<^verbatim>\<open>ValueError\<close> of \<^verbatim>\<open>int\<close>, whose
  diagnostic quotes the token \<^verbatim>\<open>-a\<close>, in which the hunk line does not occur.
\<close>

theorem malformed_hunk_diagnostic:
  "analyze_commit_changes [] [] ''@@ -a,b +1,1 @@'' = Error_dict (ValueError ''-a'') \<and>
   classify [''@@ -a,b +1,1 @@''] = Inl (ValueError ''-a'') \<and>
   \<not> py_in ''@@ -a,b +1,1 @@'' ''-a''"
  by (simp add: analyze_commit_changes_def model_defs)

text \<open>
  C4, amended.  If a line of the diff is a hunk header with two range tokens of which
  the text before the first comma is not an integer for the first or for the second,
  then the loop body at that line raises the \<^verbatim>\<open>ValueError\<close> of \<^verbatim>\<open>int\<close> for the first such
  token, the loop started at that line ends with this error, and the classification
  of the whole diff yields no file mapping: the function returns an error dictionary
  (of this error, or of the error of an earlier line).
\<close>

theorem malformed_hunk_start_fails:
  assumes "lines = py_split [CHR 0x0A] diff_output" "i < length lines"
    "is_hunk_header (lines ! i)" "hunk_ranges (lines ! i) = Inr (old_range, new_range)"
    "isl (py_int (range_start old_range)) \<or> isl (py_int (range_start new_range))"
  shows "(\<exists>tok. (tok = range_start old_range \<or> tok = range_start new_range) \<and>
            py_int tok = Inl (ValueError tok) \<and>
            step lines i s = Inl (ValueError tok) \<and> run_loop lines i s = Inl (ValueError tok)) \<and>
         (\<exists>e. classify lines = Inl e \<and>
            analyze_commit_changes files_out stats_out diff_output = Error_dict e)"
proof -
  have st: "\<exists>tok. (tok = range_start old_range \<or> tok = range_start new_range) \<and>
           py_int tok = Inl (ValueError tok) \<and> step lines i s = Inl (ValueError tok)" for s
    using step_bad_hunk [OF assms(3,4,5)] .
  then have a: "\<exists>tok. (tok = range_start old_range \<or> tok = range_start new_range) \<and>
            py_int tok = Inl (ValueError tok) \<and>
            step lines i s = Inl (ValueError tok) \<and> run_loop lines i s = Inl (ValueError tok)"
    using run_loop_fails_at [OF _ assms(2)] by blast
  have "\<exists>e. step lines i s = Inl e" for s using st [of s] by blast
  then obtain e where
    "run_loop lines 0 (initial_state (count_pass lines Map.empty None)) = Inl e"
    using run_loop_reaches_failure [OF assms(2), of 0] by blast
  then have "classify lines = Inl e \<and>
            analyze_commit_changes files_out stats_out diff_output = Error_dict e"
    using assms(1) by (simp add: classify_def analyze_commit_changes_def)
  then show ?thesis using a by blast
qed

theorem malformed_hunk_start_fails_witness:
  "is_hunk_header ''@@ -1,2 +x,2 @@'' \<and>
   hunk_ranges ''@@ -1,2 +x,2 @@'' = Inr (''-1,2'', ''+x,2'') \<and>
   py_int (range_start ''+x,2'') = Inl (ValueError ''+x'') \<and>
   analyze_commit_changes [] [] (''diff --git a/f b/f'' @ [CHR 0x0A] @ ''@@ -1,2 +x,2 @@'')
     = Error_dict (ValueError ''+x'')"
proof -
  let ?d = "''diff --git a/f b/f'' @ [CHR 0x0A] @ ''@@ -1,2 +x,2 @@''"
  let ?L = "[''diff --git a/f b/f'', ''@@ -1,2 +x,2 @@'']"
  have l: "?L = py_split [CHR 0x0A] ?d" by (simp add: startswith_def)
  have i: "1 < length ?L" by simp
  have h: "is_hunk_header (?L ! 1)" by (simp add: is_hunk_header_def startswith_def)
  have r: "hunk_ranges (?L ! 1) = Inr (''-1,2'', ''+x,2'')" by (simp add: model_defs)
  have p: "py_int (range_start ''+x,2'') = Inl (ValueError ''+x'')" by (simp add: model_defs)
  then have b: "isl (py_int (range_start ''-1,2'')) \<or> isl (py_int (range_start ''+x,2''))"
    by simp
  have v: "analyze_commit_changes [] [] ?d = Error_dict (ValueError ''+x'')"
    by (simp add: analyze_commit_changes_def model_defs)
  show ?thesis
    using malformed_hunk_start_fails [OF l i h r b, of "initial_state Map.empty" "[]" "[]"] h r p v by simp
qed

section \<open>File headers\<close>

text \<open>
  C9.  At a file header the loop body sets \<^verbatim>\<open>current_file\<close> to the last piece of the
  split of the line at \<^verbatim>\<open>" b/"\<close> (and unsets class and method).  That piece is the text
  behind the last occurrence of the token: if the token stands behind \<open>u\<close> in the line
  and no occurrence starts further right, the piece is the rest \<open>v\<close> of the line; if
  the token does not occur in the line, the piece is the whole line.
\<close>

theorem file_header_sets_current_file:
  "(is_file_header (lines ! i) \<longrightarrow>
      step lines i s
        = Inr (s\<lparr>current_file := Some (header_path (lines ! i)),
                 current_class := None, current_method := None\<rparr>)) \<and>
   (line = u @ '' b/'' @ v \<and> \<not> py_in '' b/'' (drop (Suc (length u)) line) \<longrightarrow>
      header_path line = v) \<and>
   (\<not> py_in '' b/'' line \<longrightarrow> header_path line = line)"
proof -
  have a: "step lines i s
        = Inr (s\<lparr>current_file := Some (header_path (lines ! i)),
                 current_class := None, current_method := None\<rparr>)"
    if "is_file_header (lines ! i)"
    using that by (simp add: step_def file_header_def)
  have b: "header_path line = v"
    if "line = u @ '' b/'' @ v" "\<not> py_in '' b/'' (drop (Suc (length u)) line)"
    using that by (rule header_path_last_occurrence)
  have c: "header_path line = line" if "\<not> py_in '' b/'' line"
    using that by (rule header_path_no_occurrence)
  show ?thesis using a b c by blast
qed

theorem file_header_sets_current_file_witness:
  "is_file_header ''diff --git a/src/b/x.py b/src/b/x.py'' \<and>
   step [''diff --git a/src/b/x.py b/src/b/x.py''] 0 (initial_state Map.empty)
     = Inr ((initial_state Map.empty)
              \<lparr>current_file := Some (header_path ''diff --git a/src/b/x.py b/src/b/x.py''),
               current_class := None, current_method := None\<rparr>) \<and>
   header_path ''diff --git a/src/b/x.py b/src/b/x.py'' = ''src/b/x.py'' \<and>
   \<not> py_in '' b/'' ''diff --git x y'' \<and> header_path ''diff --git x y'' = ''diff --git x y''"
proof -
  let ?l = "''diff --git a/src/b/x.py b/src/b/x.py''"
  let ?u = "''diff --git a/src/b/x.py''"
  let ?v = "''src/b/x.py''"
  let ?m = "''diff --git x y''"
  let ?s = "initial_state Map.empty"
  have f: "is_file_header ?l" by (simp add: is_file_header_def startswith_def)
  then have f0: "is_file_header ([?l] ! 0)" by simp
  have d: "?l = ?u @ '' b/'' @ ?v" by simp
  have n: "\<not> py_in '' b/'' (drop (Suc (length ?u)) ?l)" by (simp add: startswith_def)
  have m: "\<not> py_in '' b/'' ?m" by (simp add: startswith_def)
  have st: "step [?l] 0 ?s
        = Inr (?s\<lparr>current_file := Some (header_path ([?l] ! 0)),
                  current_class := None, current_method := None\<rparr>)"
    using file_header_sets_current_file [of "[?l]" 0 ?s ?l ?u ?v] f0 by blast
  have hp: "header_path ?l = ?v"
    using file_header_sets_current_file [of "[?l]" 0 ?s ?l ?u ?v] d n by blast
  have hm: "header_path ?m = ?m"
    using file_header_sets_current_file [of "[?l]" 0 ?s ?m ?u ?v] m by blast
  have st': "step [?l] 0 ?s
        = Inr (?s\<lparr>current_file := Some (header_path ?l),
                  current_class := None, current_method := None\<rparr>)"
    using st by (simp only: nth_Cons_0)
  show ?thesis using f st' hp m hm by blast
qed

end
